theory Spec2Isabelle
  imports Main
begin

section \<open>Data model of the API client (api-client.js)\<close>

text \<open>
  A callback is a JavaScript function object; the client only ever compares callbacks by
  identity (membership in a \<open>Set\<close>) and calls them. A callback is therefore modelled by
  its identity, a natural number; what it does when called is given by the field
  \<open>throws\<close> of the state (whether the call raises, as a function of the payload) and
  is recorded in the field \<open>delivered\<close>. Callbacks are taken not to call back into the
  client.
\<close>

type_synonym handler = nat

datatype payload =
    AuthChange bool "string option"
  | SocketChange bool
  | Data string

text \<open>
  The value a response body parses to. \<open>JObj\<close> carries the three fields the client
  reads (\<open>error\<close>, \<open>token\<close>, \<open>user\<close>) and the rest of the body as an opaque
  string; \<open>JNull\<close> is the JSON value \<open>null\<close>, on which a field access raises.
  For \<open>error\<close> and \<open>user\<close>, \<open>None\<close> stands for a field that is absent or
  \<open>null\<close>, which the client does not tell apart; for \<open>token\<close> it does, when it
  stores the string form of the value.
\<close>

datatype jfield = Absent | JsNull | JsString string

datatype json =
    JNull
  | JObj (error_field: "string option") (token_field: jfield)
      (user_field: "string option") (other: string)

text \<open>What a single \<open>fetch\<close> settles to: no response at all, or a status and the
  result of \<open>response.json()\<close> (\<open>None\<close> when the body does not parse).\<close>

datatype outcome =
    NoResponse string
  | Response nat "json option"

datatype exn =
    Error string
  | FetchFailed string
  | JsonFailed
  | TypeError
  | HandlerThrew handler payload

text \<open>A socket object of the realtime library, as far as the client looks at it.\<close>

record sock =
  connected :: bool
  auth :: "string option"

text \<open>
  The fields of \<open>APIClient\<close> as the constructor declares them, followed by the
  environment the client acts on: the key-value store, the socket objects created by
  \<open>io()\<close>, the timers set, and the observable trace (requests issued, delays awaited,
  events published, callbacks invoked, messages emitted on sockets).
\<close>

record client =
  token :: "string option"
  refreshToken :: "string option"
  maxRetries :: nat
  retryDelay :: nat
  eventListeners :: "string \<rightharpoonup> handler list"
  socket :: "nat option"
  socketConnected :: bool
  reconnectAttempts :: nat
  maxReconnectAttempts :: nat
  reconnectDelay :: nat
  localStorage :: "string \<rightharpoonup> string"
  sockets :: "sock list"
  timeouts :: "nat list"
  intervals :: "nat list"
  fetched :: "string option list"
  waited :: "nat list"
  published :: "(string \<times> payload) list"
  delivered :: "(handler \<times> payload) list"
  emitted :: "(nat \<times> string \<times> string) list"
  throws :: "handler \<Rightarrow> payload \<Rightarrow> bool"

definition new_client :: "(string \<rightharpoonup> string) \<Rightarrow> (handler \<Rightarrow> payload \<Rightarrow> bool) \<Rightarrow> client" where
  "new_client store thr =
     \<lparr> token = store ''token'',
       refreshToken = store ''refresh_token'',
       maxRetries = 3,
       retryDelay = 1000,
       eventListeners = Map.empty,
       socket = None,
       socketConnected = False,
       reconnectAttempts = 0,
       maxReconnectAttempts = 5,
       reconnectDelay = 2000,
       localStorage = store,
       sockets = [],
       timeouts = [],
       intervals = [],
       fetched = [],
       waited = [],
       published = [],
       delivered = [],
       emitted = [],
       throws = thr \<rparr>"

text \<open>Three behaviours of the callbacks: none raises; exactly the callback \<open>bad\<close>
  raises, whatever the payload; every callback raises.\<close>

definition quiet :: "handler \<Rightarrow> payload \<Rightarrow> bool" where
  "quiet h d = False"



section \<open>Event system\<close>

text \<open>
  \<open>eventListeners\<close> is a \<open>Map\<close> from event names to a \<open>Set\<close> of callbacks. A
  JavaScript \<open>Set\<close> keeps insertion order and holds each element once: it is a list
  to which \<open>add\<close> appends only an element that is not yet there.
\<close>

definition set_add :: "handler \<Rightarrow> handler list \<Rightarrow> handler list" where
  "set_add h hs = (if h \<in> set hs then hs else hs @ [h])"

definition on :: "string \<Rightarrow> handler \<Rightarrow> client \<Rightarrow> client" where
  "on event callback s =
     (let s1 = (if eventListeners s event = None
                then s\<lparr>eventListeners := (eventListeners s)(event \<mapsto> [])\<rparr> else s)
      in case eventListeners s1 event of
           None \<Rightarrow> s1
         | Some hs \<Rightarrow> s1\<lparr>eventListeners := (eventListeners s1)(event \<mapsto> set_add callback hs)\<rparr>)"


text \<open>\<open>listeners.forEach(callback => callback(data))\<close>: the calls are made in the order
  of the set; a call that raises ends the loop and the exception leaves it.\<close>

fun forEach :: "handler list \<Rightarrow> payload \<Rightarrow> client \<Rightarrow> (exn + unit) \<times> client" where
  "forEach [] d s = (Inr (), s)"
| "forEach (h # hs) d s =
     (let s1 = s\<lparr>delivered := delivered s @ [(h, d)]\<rparr>
      in if throws s h d then (Inl (HandlerThrew h d), s1) else forEach hs d s1)"

definition broadcastEvent :: "string \<Rightarrow> payload \<Rightarrow> client \<Rightarrow> (exn + unit) \<times> client" where
  "broadcastEvent event d s =
     (let s1 = s\<lparr>published := published s @ [(event, d)]\<rparr>
      in case eventListeners s1 event of
           None \<Rightarrow> (Inr (), s1)
         | Some hs \<Rightarrow> forEach hs d s1)"

text \<open>The callbacks one publication reaches, and what it raises: the loop stops at
  the first callback that raises.\<close>

fun reached :: "(handler \<Rightarrow> payload \<Rightarrow> bool) \<Rightarrow> payload \<Rightarrow> handler list \<Rightarrow> handler list" where
  "reached thr d [] = []"
| "reached thr d (h # hs) = (if thr h d then [h] else h # reached thr d hs)"

definition raised :: "(handler \<Rightarrow> payload \<Rightarrow> bool) \<Rightarrow> payload \<Rightarrow> handler list \<Rightarrow> exn + unit" where
  "raised thr d hs =
     (case find (\<lambda>h. thr h d) hs of None \<Rightarrow> Inr () | Some h \<Rightarrow> Inl (HandlerThrew h d))"

definition listeners :: "client \<Rightarrow> string \<Rightarrow> handler list" where
  "listeners s event = (case eventListeners s event of None \<Rightarrow> [] | Some hs \<Rightarrow> hs)"

lemma forEach_eq:
  "forEach hs d s =
     (raised (throws s) d hs,
      s\<lparr>delivered := delivered s @ map (\<lambda>h. (h, d)) (reached (throws s) d hs)\<rparr>)"
  by (induction hs arbitrary: s) (simp_all add: raised_def Let_def)

lemma broadcastEvent_eq:
  "broadcastEvent event d s =
     (raised (throws s) d (listeners s event),
      s\<lparr>published := published s @ [(event, d)],
        delivered := delivered s @ map (\<lambda>h. (h, d)) (reached (throws s) d (listeners s event))\<rparr>)"
  by (simp add: broadcastEvent_def listeners_def forEach_eq Let_def raised_def split: option.splits)

section \<open>Realtime channel\<close>

text \<open>\<open>this.socket?.connected\<close>: false when there is no socket.\<close>

definition socket_connected :: "client \<Rightarrow> bool" where
  "socket_connected s =
     (case socket s of
        None \<Rightarrow> False
      | Some i \<Rightarrow> i < length (sockets s) \<and> connected (sockets s ! i))"

text \<open>\<open>this.socket.emit(name, arg)\<close>: raises when \<open>this.socket\<close> is \<open>null\<close>.\<close>

definition emit :: "string \<Rightarrow> string \<Rightarrow> client \<Rightarrow> (exn + unit) \<times> client" where
  "emit name arg s =
     (case socket s of
        None \<Rightarrow> (Inl TypeError, s)
      | Some i \<Rightarrow> (Inr (), s\<lparr>emitted := emitted s @ [(i, name, arg)]\<rparr>))"

text \<open>The callbacks that \<open>setupSocketHandlers\<close> registers for \<open>connect\<close> and
  \<open>disconnect\<close>. They read and write the client only, whichever socket fires them.\<close>

definition on_connect :: "client \<Rightarrow> (exn + unit) \<times> client" where
  "on_connect s =
     (let s1 = s\<lparr>socketConnected := True\<rparr>;
          s2 = s1\<lparr>reconnectAttempts := 0\<rparr>
      in case broadcastEvent ''socketChange'' (SocketChange True) s2 of
           (Inl e, s3) \<Rightarrow> (Inl e, s3)
         | (Inr _, s3) \<Rightarrow> emit ''subscribe'' ''dashboard'' s3)"

definition on_disconnect :: "client \<Rightarrow> (exn + unit) \<times> client" where
  "on_disconnect s =
     (let s1 = s\<lparr>socketConnected := False\<rparr>
      in case broadcastEvent ''socketChange'' (SocketChange False) s1 of
           (Inl e, s2) \<Rightarrow> (Inl e, s2)
         | (Inr _, s2) \<Rightarrow>
             if reconnectAttempts s2 < maxReconnectAttempts s2
             then (Inr (), s2\<lparr>reconnectAttempts := reconnectAttempts s2 + 1,
                                timeouts := timeouts s2 @ [reconnectDelay s2]\<rparr>)
             else (Inr (), s2))"

text \<open>The five inbound events are republished under the client's own names.\<close>

definition local_name :: "string \<Rightarrow> string option" where
  "local_name n =
     (if n = ''bot_detection'' then Some ''botDetection''
      else if n = ''dashboard_update'' then Some ''dashboardUpdate''
      else if n = ''system_alert'' then Some ''systemAlert''
      else if n = ''log_entry'' then Some ''logEntry''
      else if n = ''heartbeat_ack'' then Some ''heartbeatAck''
      else None)"

definition on_message :: "string \<Rightarrow> string \<Rightarrow> client \<Rightarrow> (exn + unit) \<times> client" where
  "on_message n d s =
     (case local_name n of
        None \<Rightarrow> (Inr (), s)
      | Some ev \<Rightarrow> broadcastEvent ev (Data d) s)"

text \<open>The callback given to \<open>setInterval\<close>; the timestamp it sends is left out.\<close>

definition heartbeat :: "client \<Rightarrow> (exn + unit) \<times> client" where
  "heartbeat s = (if socket_connected s then emit ''heartbeat'' [] s else (Inr (), s))"

text \<open>\<open>setupSocketHandlers\<close> registers the callbacks above on the current socket and
  starts the heartbeat interval, whose handle it does not keep.\<close>

definition setupSocketHandlers :: "client \<Rightarrow> client" where
  "setupSocketHandlers s =
     (case socket s of
        None \<Rightarrow> s
      | Some i \<Rightarrow> s\<lparr>intervals := intervals s @ [30000]\<rparr>)"

text \<open>\<open>io(...)\<close> creates a socket object and starts connecting it; the object reports
  \<open>connected\<close> only once the connection is open.\<close>

definition io :: "client \<Rightarrow> client" where
  "io s = s\<lparr>sockets := sockets s @ [\<lparr>connected = False, auth = token s\<rparr>],
            socket := Some (length (sockets s))\<rparr>"

definition connectSocket :: "client \<Rightarrow> client" where
  "connectSocket s = (if socket_connected s then s else setupSocketHandlers (io s))"

definition set_flag :: "nat \<Rightarrow> bool \<Rightarrow> client \<Rightarrow> client" where
  "set_flag i b s = s\<lparr>sockets := (sockets s)[i := (sockets s ! i)\<lparr>connected := b\<rparr>]\<rparr>"

text \<open>
  \<open>socket.disconnect()\<close> belongs to the realtime library: on a socket that is
  connected it clears the flag and fires the socket's \<open>disconnect\<close> callbacks before it
  returns; on any other socket it fires nothing.
\<close>

definition socket_disconnect :: "nat \<Rightarrow> client \<Rightarrow> (exn + unit) \<times> client" where
  "socket_disconnect i s =
     (if i < length (sockets s) \<and> connected (sockets s ! i)
      then on_disconnect (set_flag i False s)
      else (Inr (), s))"

definition disconnectSocket :: "client \<Rightarrow> (exn + unit) \<times> client" where
  "disconnectSocket s =
     (case socket s of
        None \<Rightarrow> (Inr (), s)
      | Some i \<Rightarrow>
          (case socket_disconnect i s of
             (Inl e, s1) \<Rightarrow> (Inl e, s1)
           | (Inr _, s1) \<Rightarrow> (Inr (), s1\<lparr>socket := None, socketConnected := False\<rparr>)))"

text \<open>
  What happens to the channel from outside: the library signals that socket \<open>i\<close> is
  open or closed (setting the flag of that socket, if there is one, then firing the
  callback), delivers a message, a timer fires, or a consumer calls \<open>connectSocket\<close>
  or \<open>disconnectSocket\<close>. An exception that leaves a callback is lost to the event
  loop; the state reached stays. The environment is not restricted: a signal may come
  for any socket and a reconnect timer may fire at any time, which covers every moment
  at which the library sends one and a scheduled timer fires.
\<close>

datatype event =
    SockOpen nat
  | SockClose nat
  | SockMessage string string
  | ReconnectTimer
  | HeartbeatTimer
  | CallConnect
  | CallDisconnect



fun step :: "event \<Rightarrow> client \<Rightarrow> client" where
  "step (SockOpen i) s = snd (on_connect (set_flag i True s))"
| "step (SockClose i) s = snd (on_disconnect (set_flag i False s))"
| "step (SockMessage n d) s = snd (on_message n d s)"
| "step ReconnectTimer s = connectSocket s"
| "step HeartbeatTimer s = snd (heartbeat s)"
| "step CallConnect s = connectSocket s"
| "step CallDisconnect s = snd (disconnectSocket s)"


section \<open>Authentication\<close>

definition logout :: "client \<Rightarrow> (exn + unit) \<times> client" where
  "logout s =
     (let s1 = s\<lparr>token := None\<rparr>;
          s2 = s1\<lparr>localStorage := (localStorage s1)(''token'' := None)\<rparr>;
          s3 = s2\<lparr>localStorage := (localStorage s2)(''remember_me'' := None)\<rparr>
      in case disconnectSocket s3 of
           (Inl e, s4) \<Rightarrow> (Inl e, s4)
         | (Inr _, s4) \<Rightarrow> broadcastEvent ''authChange'' (AuthChange False None) s4)"

text \<open>\<open>refreshAuthToken\<close> logs out and answers \<open>false\<close>; when the logout raises it
  logs out once more, and an exception of that second logout leaves the function.\<close>

definition refreshAuthToken :: "client \<Rightarrow> (exn + bool) \<times> client" where
  "refreshAuthToken s =
     (case logout s of
        (Inr _, s1) \<Rightarrow> (Inr False, s1)
      | (Inl e, s1) \<Rightarrow>
          (case logout s1 of
             (Inr _, s2) \<Rightarrow> (Inr False, s2)
           | (Inl e', s2) \<Rightarrow> (Inl e', s2)))"

section \<open>HTTP requests\<close>

definition ok :: "nat \<Rightarrow> bool" where
  "ok st = (200 \<le> st \<and> st \<le> 299)"

text \<open>The \<open>Authorization\<close> header of an attempt: set only when the token is truthy.\<close>

definition authorization :: "client \<Rightarrow> string option" where
  "authorization s =
     (case token s of
        None \<Rightarrow> None
      | Some t \<Rightarrow> if t = [] then None else Some (''Bearer '' @ t))"

definition fetch :: "client \<Rightarrow> client" where
  "fetch s = s\<lparr>fetched := fetched s @ [authorization s]\<rparr>"

definition delay :: "nat \<Rightarrow> client \<Rightarrow> client" where
  "delay ms s = s\<lparr>waited := waited s @ [ms]\<rparr>"

text \<open>\<open>data.error || 'Request failed'\<close>: an absent or empty field is falsy.\<close>

definition message :: "string option \<Rightarrow> string" where
  "message e = (case e of None \<Rightarrow> ''Request failed'' | Some m \<Rightarrow> if m = [] then ''Request failed'' else m)"

text \<open>
  How the \<open>try\<close> block of \<open>request\<close> ends for one attempt: it returns the parsed
  body, it returns the promise of a further call of \<open>request\<close> (which the \<open>catch\<close>
  block of this call no longer guards), or it throws into the \<open>catch\<close> block.
\<close>

datatype ending = Return json | Again | Throw exn

definition unauthorized :: "nat \<Rightarrow> nat \<Rightarrow> client \<Rightarrow> ending option \<times> client" where
  "unauthorized st retryCount s =
     (if st = 401 \<and> retryCount < maxRetries s
      then (case refreshAuthToken s of
              (Inl e, s1) \<Rightarrow> (Some (Throw e), s1)
            | (Inr refreshed, s1) \<Rightarrow> if refreshed then (Some Again, s1) else (None, s1))
      else (None, s))"

definition parse :: "nat \<Rightarrow> json option \<Rightarrow> ending" where
  "parse st b =
     (case b of
        None \<Rightarrow> Throw JsonFailed
      | Some data \<Rightarrow>
          if \<not> ok st
          then (case data of
                  JNull \<Rightarrow> Throw TypeError
                | JObj e t u r \<Rightarrow> Throw (Error (message e)))
          else Return data)"

definition attempt :: "outcome \<Rightarrow> nat \<Rightarrow> client \<Rightarrow> ending \<times> client" where
  "attempt out retryCount s =
     (case out of
        NoResponse m \<Rightarrow> (Throw (FetchFailed m), s)
      | Response st b \<Rightarrow>
          (case unauthorized st retryCount s of
             (Some r, s1) \<Rightarrow> (r, s1)
           | (None, s1) \<Rightarrow>
               if st = 429 \<and> retryCount < maxRetries s1
               then (Again, delay (retryDelay s1 * 2 ^ retryCount) s1)
               else (parse st b, s1)))"

text \<open>The fields that neither the event system, the channel nor a logout writes.\<close>

definition cfg ::
  "client \<Rightarrow> (nat \<times> nat \<times> (handler \<Rightarrow> payload \<Rightarrow> bool) \<times> (string \<rightharpoonup> handler list)) \<times>
     (nat \<times> nat \<times> string option list \<times> nat list) \<times> (string option \<times> nat list \<times> (nat \<times> string \<times> string) list)" where
  "cfg s =
     ((maxRetries s, retryDelay s, throws s, eventListeners s),
      (maxReconnectAttempts s, reconnectDelay s, fetched s, waited s),
      (refreshToken s, intervals s, emitted s))"

lemma cfg_broadcastEvent: "broadcastEvent ev d s = (r, s') \<Longrightarrow> cfg s' = cfg s"
  by (auto simp: broadcastEvent_eq cfg_def)

lemma cfg_on_disconnect: "on_disconnect s = (r, s') \<Longrightarrow> cfg s' = cfg s"
  by (auto simp: on_disconnect_def Let_def split: prod.splits sum.splits if_splits
        dest!: cfg_broadcastEvent)
     (simp_all add: cfg_def)

lemma cfg_socket_disconnect: "socket_disconnect i s = (r, s') \<Longrightarrow> cfg s' = cfg s"
  by (auto simp: socket_disconnect_def set_flag_def split: if_splits dest!: cfg_on_disconnect)
     (simp_all add: cfg_def)

lemma cfg_disconnectSocket: "disconnectSocket s = (r, s') \<Longrightarrow> cfg s' = cfg s"
  by (auto simp: disconnectSocket_def split: option.splits prod.splits sum.splits
        dest!: cfg_socket_disconnect)
     (simp_all add: cfg_def)

lemma cfg_logout: "logout s = (r, s') \<Longrightarrow> cfg s' = cfg s"
  by (auto simp: logout_def Let_def split: prod.splits sum.splits
        dest!: cfg_disconnectSocket cfg_broadcastEvent)
     (simp_all add: cfg_def)

lemma cfg_refreshAuthToken: "refreshAuthToken s = (r, s') \<Longrightarrow> cfg s' = cfg s"
  by (auto simp: refreshAuthToken_def split: prod.splits sum.splits dest!: cfg_logout)

lemma cfg_unauthorized: "unauthorized st rc s = (r, s') \<Longrightarrow> cfg s' = cfg s"
  by (auto simp: unauthorized_def split: prod.splits sum.splits if_splits
        dest!: cfg_refreshAuthToken)

lemma unauthorized_Again: "unauthorized st rc s = (Some Again, s') \<Longrightarrow> rc < maxRetries s"
  by (auto simp: unauthorized_def split: if_splits)

lemma attempt_maxRetries:
  assumes "attempt out rc s = (r, s')"
  shows "maxRetries s' = maxRetries s"
proof (cases out)
  case (NoResponse m)
  with assms show ?thesis by (simp add: attempt_def)
next
  case (Response st b)
  obtain q s1 where u: "unauthorized st rc s = (q, s1)" by (cases "unauthorized st rc s")
  have "maxRetries s1 = maxRetries s" using cfg_unauthorized[OF u] by (simp add: cfg_def)
  with assms u Response show ?thesis
    by (auto simp: attempt_def delay_def split: option.splits if_splits)
qed

lemma attempt_Again:
  assumes a: "attempt out rc s = (Again, s1)"
  shows "rc < maxRetries s"
proof (cases out)
  case (NoResponse m)
  with a show ?thesis by (simp add: attempt_def)
next
  case (Response st b)
  obtain r s' where u: "unauthorized st rc s = (r, s')" by (cases "unauthorized st rc s")
  have c: "maxRetries s' = maxRetries s" using cfg_unauthorized[OF u] by (simp add: cfg_def)
  show ?thesis
  proof (cases r)
    case None
    with a u c Response show ?thesis
      by (auto simp: attempt_def parse_def split: if_splits option.splits json.splits)
  next
    case (Some e)
    with a u Response have "e = Again" by (simp add: attempt_def)
    with Some u show ?thesis by (auto dest: unauthorized_Again)
  qed
qed

text \<open>
  \<open>request(endpoint, options, retryCount)\<close>. The transport is given by the outcome of
  the attempt made with each retry count. The endpoint and the options do not enter the
  control flow; the options are those the client's own methods pass (a method and a
  body, no headers). Every attempt is a \<open>fetch\<close>. A further call of \<open>request\<close>
  is made in tail position, so its rejection is not caught by the caller's \<open>catch\<close>
  block.
\<close>

function request :: "(nat \<Rightarrow> outcome) \<Rightarrow> nat \<Rightarrow> client \<Rightarrow> (exn + json) \<times> client" where
  "request net retryCount s =
     (case attempt (net retryCount) retryCount (fetch s) of
        (Return data, s1) \<Rightarrow> (Inr data, s1)
      | (Again, s1) \<Rightarrow> request net (retryCount + 1) s1
      | (Throw e, s1) \<Rightarrow>
          if retryCount < maxRetries s1
          then request net (retryCount + 1) (delay (retryDelay s1) s1)
          else (Inl e, s1))"
  by pat_completeness auto
termination
proof (relation "measure (\<lambda>(net, rc, s). Suc (maxRetries s) - rc)")
  show "wf (measure (\<lambda>(net, rc, s). Suc (maxRetries s) - rc))" by simp
next
  fix net retryCount s x1 x2
  assume "(x1, x2) = attempt (net retryCount) retryCount (fetch s)" "x1 = Again"
  then show "((net, retryCount + 1, x2), net, retryCount, s)
      \<in> measure (\<lambda>(net, rc, s). Suc (maxRetries s) - rc)"
    using attempt_Again[of "net retryCount" retryCount "fetch s" x2]
      attempt_maxRetries[of "net retryCount" retryCount "fetch s" x1 x2]
    by (simp add: fetch_def)
next
  fix net retryCount s x1 x2 x3
  assume "(x1, x2) = attempt (net retryCount) retryCount (fetch s)" "x1 = Throw x3"
    "retryCount < maxRetries x2"
  then show "((net, retryCount + 1, delay (retryDelay x2) x2), net, retryCount, s)
      \<in> measure (\<lambda>(net, rc, s). Suc (maxRetries s) - rc)"
    using attempt_maxRetries[of "net retryCount" retryCount "fetch s" x1 x2]
    by (simp add: fetch_def delay_def)
qed

text \<open>\<open>post(endpoint, data)\<close> is \<open>request\<close> with the default retry count.\<close>

definition post :: "(nat \<Rightarrow> outcome) \<Rightarrow> client \<Rightarrow> (exn + json) \<times> client" where
  "post net s = request net 0 s"

text \<open>\<open>login\<close>: an exception in its \<open>try\<close> block is logged and thrown again.
  The token becomes the \<open>token\<close> field of the response (\<open>None\<close> stands for
  \<open>null\<close> and \<open>undefined\<close>, both falsy), and \<open>localStorage.setItem\<close> stores the
  string form of that value.\<close>

definition login :: "(nat \<Rightarrow> outcome) \<Rightarrow> bool \<Rightarrow> client \<Rightarrow> (exn + json) \<times> client" where
  "login net rememberMe s =
     (case post net s of
        (Inl e, s1) \<Rightarrow> (Inl e, s1)
      | (Inr response, s1) \<Rightarrow>
          (case response of
             JNull \<Rightarrow> (Inl TypeError, s1)
           | JObj e t u r \<Rightarrow>
               (let s2 = s1\<lparr>token := (case t of JsString v \<Rightarrow> Some v | _ \<Rightarrow> None)\<rparr>;
                    s3 = s2\<lparr>localStorage := (localStorage s2)
                           (''token'' \<mapsto> (case t of Absent \<Rightarrow> ''undefined''
                                         | JsNull \<Rightarrow> ''null'' | JsString v \<Rightarrow> v))\<rparr>;
                    s4 = (if rememberMe
                          then s3\<lparr>localStorage := (localStorage s3)(''remember_me'' \<mapsto> ''true'')\<rparr>
                          else s3)
                in case broadcastEvent ''authChange'' (AuthChange True u) s4 of
                     (Inl e', s5) \<Rightarrow> (Inl e', s5)
                   | (Inr _, s5) \<Rightarrow> (Inr response, s5))))"

text \<open>A transport that answers the attempts with the outcomes of a list, in order, and
  with one fixed outcome from then on.\<close>

definition script :: "outcome list \<Rightarrow> outcome \<Rightarrow> nat \<Rightarrow> outcome" where
  "script outs final n = (if n < length outs then outs ! n else final)"

declare request.simps [simp del]

text \<open>The definitions that evaluate the channel on a concrete client.\<close>

lemmas chan_defs = on_connect_def on_disconnect_def set_flag_def connectSocket_def io_def
  setupSocketHandlers_def socket_connected_def new_client_def broadcastEvent_eq listeners_def
  emit_def raised_def quiet_def disconnectSocket_def socket_disconnect_def heartbeat_def Let_def

section \<open>Bounded retries\<close>

lemma attempt_fetched:
  assumes "attempt out rc s = (r, s')"
  shows "fetched s' = fetched s"
proof (cases out)
  case (NoResponse m)
  with assms show ?thesis by (simp add: attempt_def)
next
  case (Response st b)
  obtain q s1 where u: "unauthorized st rc s = (q, s1)" by (cases "unauthorized st rc s")
  have "fetched s1 = fetched s" using cfg_unauthorized[OF u] by (simp add: cfg_def)
  with assms u Response show ?thesis
    by (auto simp: attempt_def delay_def split: option.splits if_splits)
qed

lemma request_fetched:
  "length (fetched s) < length (fetched (snd (request net rc s))) \<and>
   length (fetched (snd (request net rc s))) \<le> length (fetched s) + Suc (maxRetries s - rc)"
proof (induction net rc s rule: request.induct)
  case (1 net rc s)
  obtain r s1 where a: "attempt (net rc) rc (fetch s) = (r, s1)"
    by (cases "attempt (net rc) rc (fetch s)")
  have f: "length (fetched s1) = Suc (length (fetched s))"
    using attempt_fetched[OF a] by (simp add: fetch_def)
  have m: "maxRetries s1 = maxRetries s"
    using attempt_maxRetries[OF a] by (simp add: fetch_def)
  show ?case
  proof (cases r)
    case (Return d)
    with a f show ?thesis by (simp add: request.simps[of net rc s])
  next
    case Again
    have lt: "rc < maxRetries s" using attempt_Again a Again by (fastforce simp: fetch_def)
    have eq: "request net rc s = request net (rc + 1) s1"
      using a Again by (simp add: request.simps[of net rc s])
    from "1.IH"(1)[OF a[symmetric] Again] f m lt show ?thesis
      unfolding eq by simp arith
  next
    case (Throw e)
    show ?thesis
    proof (cases "rc < maxRetries s1")
      case True
      have eq: "request net rc s = request net (rc + 1) (delay (retryDelay s1) s1)"
        using a Throw True by (simp add: request.simps[of net rc s])
      from "1.IH"(2)[OF a[symmetric] Throw True] f m True show ?thesis
        unfolding eq by (simp add: delay_def) arith
    next
      case False
      with a Throw f show ?thesis by (simp add: request.simps[of net rc s])
    qed
  qed
qed

text \<open>
  Claim C3. For every transport, that is for every outcome of every attempt, persistent
  failure included, and every client state, \<open>request(endpoint, options)\<close> settles, and
  by then it has issued at least one and at most \<open>maxRetries + 1\<close> attempts. That it
  settles is the totality of \<open>request\<close>: its recursion is well-founded, each further
  call being made with a larger retry count below \<open>maxRetries\<close>, on the assumption
  that every \<open>fetch\<close>, delay and callback returns. The attempts are the entries the
  call adds to \<open>fetched\<close>.
\<close>

theorem request_attempts_bounded:
  "\<exists>r s'. request net 0 s = (r, s') \<and>
     length (fetched s) < length (fetched s') \<and>
     length (fetched s') \<le> length (fetched s) + (maxRetries s + 1)"
proof -
  obtain r s' where e: "request net 0 s = (r, s')" by (cases "request net 0 s")
  with request_fetched[of s net 0] show ?thesis by simp
qed

theorem request_attempts_bounded_witness:
  "\<exists>r s'. request (script [] (NoResponse ''offline'')) 0 (new_client Map.empty quiet) = (r, s') \<and>
     length (fetched (new_client Map.empty quiet)) < length (fetched s') \<and>
     length (fetched s') \<le> length (fetched (new_client Map.empty quiet))
        + (maxRetries (new_client Map.empty quiet) + 1)"
  by (rule request_attempts_bounded)

section \<open>Delivery of events\<close>











section \<open>Registering a callback more than once\<close>

text \<open>The caller that keeps the function object and registers the same object again
  changes nothing: the set holds it once.\<close>

lemma on_on: "on event h (on event h s) = on event h s"
  by (simp add: on_def Let_def set_add_def split: option.splits)






section \<open>Opening the channel\<close>

text \<open>
  Claim C7, as the code has it. The guard of \<open>connectSocket\<close> looks at the
  \<open>connected\<close> flag of the current socket only. A call made while the current socket
  is connected changes nothing. A call made while there is no socket, or while the
  current socket is still connecting, creates one more socket and leaves it connecting,
  so that a second call in immediate succession creates a second one.
\<close>

theorem connectSocket_guard:
  "(socket_connected s \<longrightarrow> connectSocket s = s) \<and>
   (\<not> socket_connected s \<longrightarrow>
      length (sockets (connectSocket s)) = length (sockets s) + 1 \<and>
      socket (connectSocket s) = Some (length (sockets s)) \<and>
      \<not> socket_connected (connectSocket s) \<and>
      length (sockets (connectSocket (connectSocket s))) = length (sockets s) + 2)"
  by (simp add: connectSocket_def io_def setupSocketHandlers_def socket_connected_def)

theorem connectSocket_guard_witness:
  "\<not> socket_connected (new_client Map.empty quiet) \<and>
   length (sockets (connectSocket (new_client Map.empty quiet))) = 1 \<and>
   length (sockets (connectSocket (connectSocket (new_client Map.empty quiet)))) = 2 \<and>
   socket_connected (step (SockOpen 0) (connectSocket (new_client Map.empty quiet))) \<and>
   connectSocket (step (SockOpen 0) (connectSocket (new_client Map.empty quiet)))
     = step (SockOpen 0) (connectSocket (new_client Map.empty quiet))"
proof -
  have a: "\<not> socket_connected (new_client Map.empty quiet)"
    by (simp add: socket_connected_def new_client_def)
  have b: "socket_connected (step (SockOpen 0) (connectSocket (new_client Map.empty quiet)))"
    by (simp add: chan_defs)
  have c: "length (sockets (new_client Map.empty quiet)) = 0"
    by (simp add: new_client_def)
  from connectSocket_guard[of "new_client Map.empty quiet"]
    connectSocket_guard[of "step (SockOpen 0) (connectSocket (new_client Map.empty quiet))"]
    a b c
  show ?thesis by simp
qed

text \<open>The claim as the specification words it fails: the first call leaves the channel
  connecting (a socket that is not connected), and the second call creates a second
  socket.\<close>

theorem connectSocket_twice_counterexample:
  "socket (connectSocket (new_client Map.empty quiet)) = Some 0 \<and>
   \<not> socket_connected (connectSocket (new_client Map.empty quiet)) \<and>
   length (sockets (connectSocket (new_client Map.empty quiet))) = 1 \<and>
   length (sockets (connectSocket (connectSocket (new_client Map.empty quiet)))) = 2"
  by (simp add: chan_defs)

section \<open>Facts about the channel\<close>



text \<open>Whether the callbacks registered for \<open>socketChange\<close> all return when told of a
  disconnect.\<close>

definition calm :: "client \<Rightarrow> bool" where
  "calm s = (raised (throws s) (SocketChange False) (listeners s ''socketChange'') = Inr ())"

text \<open>What the \<open>disconnect\<close> callback leaves behind, field by field.\<close>

lemma on_disconnect_fields:
  "throws (snd (on_disconnect s)) = throws s"
  "eventListeners (snd (on_disconnect s)) = eventListeners s"
  "maxReconnectAttempts (snd (on_disconnect s)) = maxReconnectAttempts s"
  "socketConnected (snd (on_disconnect s)) = False"
  "reconnectAttempts (snd (on_disconnect s)) =
     (if calm s \<and> reconnectAttempts s < maxReconnectAttempts s
      then reconnectAttempts s + 1 else reconnectAttempts s)"
  "timeouts (snd (on_disconnect s)) =
     (if calm s \<and> reconnectAttempts s < maxReconnectAttempts s
      then timeouts s @ [reconnectDelay s] else timeouts s)"
  "socket (snd (on_disconnect s)) = socket s"
  "sockets (snd (on_disconnect s)) = sockets s"
  "fst (on_disconnect s) = Inr () \<longleftrightarrow> calm s"
  by (simp_all add: on_disconnect_def broadcastEvent_eq calm_def listeners_def Let_def
        split: sum.splits)

lemma calm_cong:
  "throws s' = throws s \<Longrightarrow> eventListeners s' = eventListeners s \<Longrightarrow> calm s' = calm s"
  by (simp add: calm_def listeners_def)

lemma disconnectSocket_fields:
  "throws (snd (disconnectSocket s)) = throws s"
  "eventListeners (snd (disconnectSocket s)) = eventListeners s"
  "maxReconnectAttempts (snd (disconnectSocket s)) = maxReconnectAttempts s"
  "socketConnected s = False \<Longrightarrow> socketConnected (snd (disconnectSocket s)) = False"
  "reconnectAttempts s \<le> reconnectAttempts (snd (disconnectSocket s))"
  "\<not> calm s \<or> maxReconnectAttempts s \<le> reconnectAttempts s \<Longrightarrow>
     timeouts (snd (disconnectSocket s)) = timeouts s"
proof -
  have c: "calm (set_flag i False s) = calm s" for i
    by (rule calm_cong) (simp_all add: set_flag_def)
  have f: "reconnectAttempts (set_flag i False s) = reconnectAttempts s"
     "maxReconnectAttempts (set_flag i False s) = maxReconnectAttempts s"
     "timeouts (set_flag i False s) = timeouts s"
     "throws (set_flag i False s) = throws s"
     "eventListeners (set_flag i False s) = eventListeners s" for i
    by (simp_all add: set_flag_def)
  show "throws (snd (disconnectSocket s)) = throws s"
    by (simp add: disconnectSocket_def socket_disconnect_def on_disconnect_fields f
          split: option.splits prod.splits sum.splits)
       (metis on_disconnect_fields(1) f(4) snd_conv)
  show "eventListeners (snd (disconnectSocket s)) = eventListeners s"
    by (simp add: disconnectSocket_def socket_disconnect_def on_disconnect_fields f
          split: option.splits prod.splits sum.splits)
       (metis on_disconnect_fields(2) f(5) snd_conv)
  show "maxReconnectAttempts (snd (disconnectSocket s)) = maxReconnectAttempts s"
    by (simp add: disconnectSocket_def socket_disconnect_def on_disconnect_fields f
          split: option.splits prod.splits sum.splits)
       (metis on_disconnect_fields(3) f(2) snd_conv)
  show "socketConnected s = False \<Longrightarrow> socketConnected (snd (disconnectSocket s)) = False"
    by (simp add: disconnectSocket_def socket_disconnect_def on_disconnect_fields f
          split: option.splits prod.splits sum.splits)
       (metis on_disconnect_fields(4) snd_conv)
  show "reconnectAttempts s \<le> reconnectAttempts (snd (disconnectSocket s))"
    by (simp add: disconnectSocket_def socket_disconnect_def on_disconnect_fields f
          split: option.splits prod.splits sum.splits)
       (metis (no_types) on_disconnect_fields(5) f(1) f(2) snd_conv le_add1 order_refl)
  show "\<not> calm s \<or> maxReconnectAttempts s \<le> reconnectAttempts s \<Longrightarrow>
     timeouts (snd (disconnectSocket s)) = timeouts s"
    by (simp add: disconnectSocket_def socket_disconnect_def on_disconnect_fields f c
          split: option.splits prod.splits sum.splits)
       (metis (no_types) on_disconnect_fields(6) f(1) f(2) f(3) c snd_conv not_le)
qed
lemma set_flag_fields:
  "throws (set_flag i b s) = throws s"
  "eventListeners (set_flag i b s) = eventListeners s"
  "maxReconnectAttempts (set_flag i b s) = maxReconnectAttempts s"
  "reconnectAttempts (set_flag i b s) = reconnectAttempts s"
  "timeouts (set_flag i b s) = timeouts s"
  "socketConnected (set_flag i b s) = socketConnected s"
  by (simp_all add: set_flag_def)

lemma calm_set_flag: "calm (set_flag i b s) = calm s"
  by (rule calm_cong) (simp_all add: set_flag_fields)







section \<open>Closing the channel\<close>

lemma disconnectSocket_idle:
  assumes "socket s = Some i" and "\<not> socket_connected s"
  shows "disconnectSocket s = (Inr (), s\<lparr>socket := None, socketConnected := False\<rparr>)"
  using assms by (auto simp: disconnectSocket_def socket_disconnect_def socket_connected_def)

lemma disconnectSocket_connected:
  assumes "socket s = Some i" and "socket_connected s"
  shows "disconnectSocket s =
           (case on_disconnect (set_flag i False s) of
              (Inl e, s1) \<Rightarrow> (Inl e, s1)
            | (Inr u, s1) \<Rightarrow> (Inr (), s1\<lparr>socket := None, socketConnected := False\<rparr>))"
  using assms by (simp add: disconnectSocket_def socket_disconnect_def socket_connected_def)

lemma on_disconnect_more:
  "intervals (snd (on_disconnect s)) = intervals s"
  "reconnectDelay (snd (on_disconnect s)) = reconnectDelay s"
  by (simp_all add: on_disconnect_def broadcastEvent_eq Let_def split: sum.splits)

text \<open>
  Claim C6, as the code has it. \<open>disconnectSocket\<close> on a client that has a socket
  leaves \<open>socketConnected\<close> false and the heartbeat interval in place, whose callback
  then finds no connected socket and sends nothing. The client keeps no flag that tells
  a local close from any other. When the socket was connected, its \<open>disconnect\<close>
  callback runs during the call: if the callbacks registered for \<open>socketChange\<close>
  return, it schedules a reconnection whenever the attempts are below
  \<open>maxReconnectAttempts\<close>, and the socket is forgotten; if one of them raises, the
  exception leaves \<open>disconnectSocket\<close>, nothing is scheduled and the socket is kept.
  When the socket was not connected, nothing is scheduled and the socket is forgotten.
\<close>

theorem disconnectSocket_effect:
  assumes "socket s = Some i"
  shows "\<exists>r s'. disconnectSocket s = (r, s') \<and>
           \<not> socketConnected s' \<and>
           intervals s' = intervals s \<and>
           heartbeat s' = (Inr (), s') \<and>
           timeouts s' =
             (if socket_connected s \<and> calm s \<and> reconnectAttempts s < maxReconnectAttempts s
              then timeouts s @ [reconnectDelay s] else timeouts s) \<and>
           (if socket_connected s \<and> \<not> calm s
            then (\<exists>e. r = Inl e) \<and> socket s' = Some i
            else r = Inr () \<and> socket s' = None)"
proof (cases "socket_connected s")
  case False
  have h: "\<not> socket_connected (s\<lparr>socket := None, socketConnected := False\<rparr>)"
    by (simp add: socket_connected_def)
  show ?thesis
    using False by (simp add: disconnectSocket_idle[OF assms False] heartbeat_def h)
next
  case True
  let ?s0 = "set_flag i False s"
  obtain r1 s1 where o: "on_disconnect ?s0 = (r1, s1)" by (cases "on_disconnect ?s0")
  have c: "calm ?s0 = calm s" by (rule calm_set_flag)
  have i: "i < length (sockets s)" using True assms by (simp add: socket_connected_def)
  have f: "socketConnected s1 = False" "intervals s1 = intervals s"
    "socket s1 = Some i" "sockets s1 = (sockets s)[i := (sockets s ! i)\<lparr>connected := False\<rparr>]"
    "timeouts s1 = (if calm s \<and> reconnectAttempts s < maxReconnectAttempts s
                    then timeouts s @ [reconnectDelay s] else timeouts s)"
    "r1 = Inr () \<longleftrightarrow> calm s"
    using on_disconnect_fields[of ?s0] on_disconnect_more[of ?s0] o c assms
    by (simp_all add: set_flag_def)
  show ?thesis
  proof (cases "calm s")
    case True
    with f have r1: "r1 = Inr ()" by simp
    show ?thesis
      using \<open>socket_connected s\<close> True f
      by (simp add: disconnectSocket_connected[OF assms \<open>socket_connected s\<close>] o r1
            heartbeat_def socket_connected_def)
  next
    case False
    with f obtain e where r1: "r1 = Inl e" by (cases r1) auto
    show ?thesis
      using \<open>socket_connected s\<close> False f i
      by (simp add: disconnectSocket_connected[OF assms \<open>socket_connected s\<close>] o r1
            heartbeat_def socket_connected_def)
  qed
qed

theorem disconnectSocket_effect_witness:
  "\<exists>r s'. disconnectSocket (step (SockOpen 0) (connectSocket (new_client Map.empty quiet))) = (r, s') \<and>
      r = Inr () \<and> socket s' = None \<and> \<not> socketConnected s' \<and>
      intervals s' = [30000] \<and> timeouts s' = [2000] \<and> heartbeat s' = (Inr (), s')"
proof -
  let ?s = "step (SockOpen 0) (connectSocket (new_client Map.empty quiet))"
  have a: "socket ?s = Some 0" by (simp add: chan_defs)
  have c: "socket_connected ?s \<and> calm ?s \<and> reconnectAttempts ?s < maxReconnectAttempts ?s"
    by (simp add: chan_defs calm_def)
  have d: "intervals ?s = [30000] \<and> timeouts ?s = [] \<and> reconnectDelay ?s = 2000"
    by (simp add: chan_defs)
  from disconnectSocket_effect[OF a] c d show ?thesis by auto
qed

text \<open>The claim as the specification words it fails: closing a connected channel by
  \<open>disconnectSocket\<close> schedules a reconnection and leaves the heartbeat interval in
  place.\<close>

theorem disconnectSocket_counterexample:
  "fst (disconnectSocket (step (SockOpen 0) (connectSocket (new_client Map.empty quiet)))) = Inr () \<and>
   timeouts (step (SockOpen 0) (connectSocket (new_client Map.empty quiet))) = [] \<and>
   timeouts (snd (disconnectSocket (step (SockOpen 0) (connectSocket (new_client Map.empty quiet))))) = [2000] \<and>
   intervals (snd (disconnectSocket (step (SockOpen 0) (connectSocket (new_client Map.empty quiet))))) = [30000]"
  by (simp add: chan_defs)

section \<open>Bounded reconnection\<close>





section \<open>Responses that are neither a success, 401 nor 429\<close>

text \<open>The error with which the \<open>try\<close> block ends for a response that is not a
  success: the one the client builds from the body when the body parses to an object,
  the one raised by reading a field of \<open>null\<close>, or the one of \<open>response.json()\<close>.\<close>

definition failure :: "json option \<Rightarrow> exn" where
  "failure b =
     (case b of
        None \<Rightarrow> JsonFailed
      | Some JNull \<Rightarrow> TypeError
      | Some (JObj e t u r) \<Rightarrow> Error (message e))"

lemma parse_failure: "\<not> ok st \<Longrightarrow> parse st b = Throw (failure b)"
  by (simp add: parse_def failure_def split: option.splits json.splits)

lemma attempt_other_status:
  assumes "\<not> ok st" and "st \<noteq> 401" and "st \<noteq> 429"
  shows "attempt (Response st b) rc s = (Throw (failure b), s)"
  using assms by (simp add: attempt_def unauthorized_def parse_failure)

text \<open>
  Claim C1, as the code has it. For every attempt whose response has a status other
  than 2xx, 401 and 429, \<open>request\<close> raises an error inside its \<open>try\<close> block: the one
  carrying the message of the server (the \<open>error\<close> field of the body, or
  \<open>Request failed\<close> when that is absent or empty) when the body parses to an object,
  otherwise the error of parsing the body or of reading the field of \<open>null\<close>. The
  \<open>catch\<close> block of the same call handles it like a failed \<open>fetch\<close>: while the
  retry count is below \<open>maxRetries\<close> it waits \<open>retryDelay\<close> and issues a further
  attempt; only the attempt made with the retry budget used up rejects, at once, with
  that error.
\<close>

theorem request_other_status:
  assumes "net rc = Response st b"
    and "\<not> ok st" and "st \<noteq> 401" and "st \<noteq> 429"
  shows "request net rc s =
           (if rc < maxRetries s
            then request net (rc + 1) (delay (retryDelay s) (fetch s))
            else (Inl (failure b), fetch s)) \<and>
         failure (Some (JObj e t u r)) = Error (message e) \<and>
         failure (Some JNull) = TypeError \<and>
         failure None = JsonFailed"
  using assms
  by (simp add: request.simps[of net rc s] attempt_other_status failure_def)
     (simp add: fetch_def)

theorem request_other_status_witness:
  "request (script [] (Response 500 (Some (JObj (Some ''boom'') Absent None [])))) 0
      (new_client Map.empty quiet)
     = request (script [] (Response 500 (Some (JObj (Some ''boom'') Absent None [])))) 1
         (delay 1000 (fetch (new_client Map.empty quiet))) \<and>
   request (script [] (Response 500 (Some (JObj (Some ''boom'') Absent None [])))) 3
      (new_client Map.empty quiet)
     = (Inl (Error ''boom''), fetch (new_client Map.empty quiet))"
proof -
  let ?net = "script [] (Response 500 (Some (JObj (Some ''boom'') Absent None [])))"
  have n: "?net rc = Response 500 (Some (JObj (Some ''boom'') Absent None []))" for rc
    by (simp add: script_def)
  have o: "\<not> ok 500" "(500::nat) \<noteq> 401" "(500::nat) \<noteq> 429" by (simp_all add: ok_def)
  have m: "maxRetries (new_client Map.empty quiet) = 3" "retryDelay (new_client Map.empty quiet) = 1000"
    by (simp_all add: new_client_def)
  from request_other_status[where net = ?net and rc = 0 and s = "new_client Map.empty quiet", OF n o]
       request_other_status[where net = ?net and rc = 3 and s = "new_client Map.empty quiet", OF n o] m
  show ?thesis by (simp add: message_def failure_def)
qed

text \<open>The claim as the specification words it fails: a first response of status 500
  does not reject the call; a second attempt is issued, and when that one succeeds the
  call resolves.\<close>

theorem request_other_status_counterexample:
  "fst (request (script [Response 500 (Some (JObj (Some ''boom'') Absent None []))]
                   (Response 200 (Some (JObj None Absent None ''stats''))))
          0 (new_client Map.empty quiet))
     = Inr (JObj None Absent None ''stats'') \<and>
   length (fetched (snd (request (script [Response 500 (Some (JObj (Some ''boom'') Absent None []))]
                   (Response 200 (Some (JObj None Absent None ''stats''))))
          0 (new_client Map.empty quiet)))) = 2"
  by code_simp

section \<open>Backoff under rate limiting\<close>

lemma attempt_rate_limited:
  assumes "rc < maxRetries s"
  shows "attempt (Response 429 b) rc s = (Again, delay (retryDelay s * 2 ^ rc) s)"
  using assms by (simp add: attempt_def unauthorized_def)

lemma attempt_success:
  assumes "ok st"
  shows "attempt (Response st (Some d)) rc s = (Return d, s)"
  using assms by (auto simp: attempt_def unauthorized_def parse_def ok_def)

text \<open>The attempts from retry count \<open>rc\<close> on, when those before the \<open>k\<close>-th are
  answered with 429 and the \<open>k\<close>-th succeeds.\<close>

lemma request_rate_limited:
  assumes "\<forall>i. rc \<le> i \<and> i < k \<longrightarrow> (\<exists>b. net i = Response 429 b)"
    and "net k = Response st (Some d)" and "ok st"
    and "rc \<le> k" and "k \<le> maxRetries s"
  shows "request net rc s =
           (Inr d, s\<lparr>fetched := fetched s @ replicate (k - rc + 1) (authorization s),
                     waited := waited s @ map (\<lambda>i. retryDelay s * 2 ^ i) [rc..<k]\<rparr>)"
  using assms
proof (induction "k - rc" arbitrary: rc s)
  case 0
  then have "rc = k" by simp
  with 0 show ?case
    by (simp add: request.simps[of net k s] attempt_success fetch_def)
next
  case (Suc n)
  then have lt: "rc < k" by simp
  with Suc.prems obtain b where b: "net rc = Response 429 b" by auto
  let ?s1 = "delay (retryDelay s * 2 ^ rc) (fetch s)"
  have m: "rc < maxRetries (fetch s)" using lt Suc.prems by (simp add: fetch_def)
  have eq: "request net rc s = request net (rc + 1) ?s1"
    by (simp add: request.simps[of net rc s] b attempt_rate_limited[OF m])
       (simp add: fetch_def)
  have ih: "request net (rc + 1) ?s1 =
      (Inr d, ?s1\<lparr>fetched := fetched ?s1 @ replicate (k - (rc + 1) + 1) (authorization ?s1),
                    waited := waited ?s1 @ map (\<lambda>i. retryDelay ?s1 * 2 ^ i) [rc + 1..<k]\<rparr>)"
  proof (rule Suc.hyps(1))
    show "n = k - (rc + 1)" using Suc.hyps(2) by simp
    show "\<forall>i. rc + 1 \<le> i \<and> i < k \<longrightarrow> (\<exists>b. net i = Response 429 b)"
      using Suc.prems(1) by auto
    show "net k = Response st (Some d)" by (rule Suc.prems(2))
    show "ok st" by (rule Suc.prems(3))
    show "rc + 1 \<le> k" using lt by simp
    show "k \<le> maxRetries ?s1" using Suc.prems(5) by (simp add: delay_def fetch_def)
  qed
  have r: "replicate (k - rc + 1) (authorization s)
             = authorization s # replicate (k - (rc + 1) + 1) (authorization s)"
    using lt by (simp add: Suc_diff_Suc)
  have u: "[rc..<k] = rc # [rc + 1..<k]" using lt by (simp add: upt_conv_Cons)
  show ?case unfolding eq ih r u
    by (simp add: delay_def fetch_def authorization_def)
qed

text \<open>
  Claim C4, as the code has it. When the first \<open>k < maxRetries\<close> attempts are answered
  with 429 and the next one succeeds, the call resolves with the body of that success
  after \<open>k + 1\<close> attempts, and the delays it has waited are
  \<open>retryDelay * 2^0, \<dots>, retryDelay * 2^(k-1)\<close> in this order: the delay before
  attempt \<open>n\<close> (counted from 1, \<open>2 \<le> n \<le> k + 1\<close>) is \<open>retryDelay * 2^(n-2)\<close>,
  the exponent being the retry count of the attempt that was refused.
\<close>

theorem request_backoff:
  assumes "\<forall>i<k. \<exists>b. net i = Response 429 b"
    and "net k = Response st (Some d)" and "ok st" and "k < maxRetries s"
  shows "fst (request net 0 s) = Inr d \<and>
         length (fetched (snd (request net 0 s))) = length (fetched s) + (k + 1) \<and>
         waited (snd (request net 0 s)) = waited s @ map (\<lambda>i. retryDelay s * 2 ^ i) [0..<k] \<and>
         (\<forall>n. 2 \<le> n \<and> n \<le> k + 1 \<longrightarrow>
             waited (snd (request net 0 s)) ! (length (waited s) + (n - 2))
               = retryDelay s * 2 ^ (n - 2))"
proof -
  have "request net 0 s =
           (Inr d, s\<lparr>fetched := fetched s @ replicate (k - 0 + 1) (authorization s),
                     waited := waited s @ map (\<lambda>i. retryDelay s * 2 ^ i) [0..<k]\<rparr>)"
    using assms by (intro request_rate_limited) auto
  then show ?thesis by (auto simp: nth_append)
qed

theorem request_backoff_witness:
  "fst (request (script [Response 429 None, Response 429 None]
                   (Response 200 (Some (JObj None Absent None ''stats''))))
          0 (new_client Map.empty quiet))
     = Inr (JObj None Absent None ''stats'') \<and>
   waited (snd (request (script [Response 429 None, Response 429 None]
                   (Response 200 (Some (JObj None Absent None ''stats''))))
          0 (new_client Map.empty quiet)))
     = [1000, 2000]"
proof -
  let ?net = "script [Response 429 None, Response 429 None]
                   (Response 200 (Some (JObj None Absent None ''stats'')))"
  have a: "\<forall>i<2. \<exists>b. ?net i = Response 429 b"
    by (simp add: script_def less_Suc_eq numeral_2_eq_2)
  have b: "?net 2 = Response 200 (Some (JObj None Absent None ''stats''))"
    by (simp add: script_def)
  have c: "ok 200" by (simp add: ok_def)
  have d: "2 < maxRetries (new_client Map.empty quiet)" by (simp add: new_client_def)
  have e: "waited (new_client Map.empty quiet) = []" "retryDelay (new_client Map.empty quiet) = 1000"
    by (simp_all add: new_client_def)
  have f: "[0..<2] = [0, 1]" by (simp add: numeral_2_eq_2)
  from request_backoff[where net = ?net and k = 2 and s = "new_client Map.empty quiet", OF a b c d]
  show ?thesis by (simp add: e f)
qed

text \<open>The claim as the specification words it fails: after one 429 the delay before
  attempt 2 is \<open>retryDelay\<close>, not \<open>retryDelay * 2^(2-1)\<close>.\<close>

theorem request_backoff_counterexample:
  "fst (request (script [Response 429 None] (Response 200 (Some (JObj None Absent None ''stats''))))
          0 (new_client Map.empty quiet))
     = Inr (JObj None Absent None ''stats'') \<and>
   waited (snd (request (script [Response 429 None] (Response 200 (Some (JObj None Absent None ''stats''))))
          0 (new_client Map.empty quiet)))
     = [1000] \<and>
   retryDelay (new_client Map.empty quiet) * 2 ^ (2 - 1) = 2000"
  by code_simp

section \<open>Facts about logging out\<close>

text \<open>The credential state after a logout; the number of \<open>authChange\<close> events with
  \<open>authenticated: false\<close> published so far; whether the callbacks registered for
  \<open>authChange\<close> all return when told so.\<close>

definition cleared :: "client \<Rightarrow> bool" where
  "cleared s =
     (token s = None \<and> localStorage s ''token'' = None \<and> localStorage s ''remember_me'' = None)"

definition auth_events :: "client \<Rightarrow> nat" where
  "auth_events s = count_list (published s) (''authChange'', AuthChange False None)"

definition auth_calm :: "client \<Rightarrow> bool" where
  "auth_calm s = (raised (throws s) (AuthChange False None) (listeners s ''authChange'') = Inr ())"

lemma count_list_append2: "count_list (xs @ ys) x = count_list xs x + count_list ys x"
  by (induction xs) auto

lemma on_disconnect_credentials:
  "token (snd (on_disconnect s)) = token s"
  "localStorage (snd (on_disconnect s)) = localStorage s"
  "auth_events (snd (on_disconnect s)) = auth_events s"
  by (simp_all add: on_disconnect_def broadcastEvent_eq auth_events_def count_list_append2
        Let_def split: sum.splits)

text \<open>What \<open>disconnectSocket\<close> leaves behind in every case.\<close>

lemma disconnectSocket_leaves:
  assumes "disconnectSocket s = (r, s')"
  shows "token s' = token s" and "localStorage s' = localStorage s"
    and "auth_events s' = auth_events s"
    and "throws s' = throws s" and "eventListeners s' = eventListeners s"
    and "\<not> socket_connected s'"
    and "\<not> socket_connected s \<Longrightarrow> r = Inr ()"
proof -
  show "throws s' = throws s" and "eventListeners s' = eventListeners s"
    using disconnectSocket_fields(1,2)[of s] assms by simp_all
  show "\<not> socket_connected s \<Longrightarrow> r = Inr ()"
    using assms
    by (auto simp: disconnectSocket_def socket_disconnect_def socket_connected_def
          split: option.splits)
  have "token s' = token s \<and> localStorage s' = localStorage s \<and>
        auth_events s' = auth_events s \<and> \<not> socket_connected s'"
  proof (cases "socket s")
    case None
    with assms show ?thesis by (simp add: disconnectSocket_def socket_connected_def)
  next
    case (Some i)
    show ?thesis
    proof (cases "socket_connected s")
      case False
      with assms Some show ?thesis
        by (auto simp: disconnectSocket_def socket_disconnect_def socket_connected_def
              auth_events_def)
    next
      case True
      let ?s0 = "set_flag i False s"
      obtain r1 s1 where o: "on_disconnect ?s0 = (r1, s1)" by (cases "on_disconnect ?s0")
      have i: "i < length (sockets s)" using True Some by (simp add: socket_connected_def)
      have f: "token s1 = token s" "localStorage s1 = localStorage s"
        "auth_events s1 = auth_events s" "socket s1 = Some i"
        "sockets s1 = (sockets s)[i := (sockets s ! i)\<lparr>connected := False\<rparr>]"
        using on_disconnect_credentials[of ?s0] on_disconnect_fields(7,8)[of ?s0] o Some
        by (simp_all add: set_flag_def auth_events_def)
      have n: "\<not> socket_connected s1" using f i by (simp add: socket_connected_def)
      have d: "disconnectSocket s =
           (case (r1, s1) of
              (Inl e, s1) \<Rightarrow> (Inl e, s1)
            | (Inr u, s1) \<Rightarrow> (Inr (), s1\<lparr>socket := None, socketConnected := False\<rparr>))"
        using Some True i o
        by (simp add: disconnectSocket_def socket_disconnect_def socket_connected_def)
      show ?thesis
      proof (cases r1)
        case (Inl e)
        with d assms f n show ?thesis by simp
      next
        case (Inr u)
        with d assms f show ?thesis by (auto simp: socket_connected_def auth_events_def)
      qed
    qed
  qed
  then show "token s' = token s" and "localStorage s' = localStorage s"
    and "auth_events s' = auth_events s" and "\<not> socket_connected s'" by simp_all
qed

text \<open>A logout clears the credential state. It publishes \<open>authChange\<close> once, unless
  the socket was connected and its \<open>disconnect\<close> callback raised, in which case it
  publishes nothing and raises.\<close>

lemma logout_leaves:
  assumes "logout s = (r, s')"
  shows "cleared s'" and "\<not> socket_connected s'"
    and "throws s' = throws s" and "eventListeners s' = eventListeners s"
    and "(auth_events s' = auth_events s + 1 \<and> (r = Inr () \<longleftrightarrow> auth_calm s)) \<or>
         (socket_connected s \<and> auth_events s' = auth_events s \<and> r \<noteq> Inr ())"
proof -
  let ?s3 = "s\<lparr>token := None,
               localStorage := (localStorage s)(''token'' := None, ''remember_me'' := None)\<rparr>"
  obtain r4 s4 where d: "disconnectSocket ?s3 = (r4, s4)" by (cases "disconnectSocket ?s3")
  note k = disconnectSocket_leaves[OF d]
  have c3: "socket_connected ?s3 = socket_connected s"
    by (simp add: socket_connected_def split: option.splits)
  have e3: "auth_events ?s3 = auth_events s" by (simp add: auth_events_def)
  have l: "logout s =
      (case (r4, s4) of (Inl e, s4) \<Rightarrow> (Inl e, s4)
       | (Inr u, s4) \<Rightarrow> broadcastEvent ''authChange'' (AuthChange False None) s4)"
    using d by (simp add: logout_def Let_def)
  have "cleared s' \<and> \<not> socket_connected s' \<and> throws s' = throws s \<and>
        eventListeners s' = eventListeners s \<and>
        ((auth_events s' = auth_events s + 1 \<and> (r = Inr () \<longleftrightarrow> auth_calm s)) \<or>
         (socket_connected s \<and> auth_events s' = auth_events s \<and> r \<noteq> Inr ()))"
  proof (cases r4)
    case (Inl e)
    then have "socket_connected s" using k(7) c3 by auto
    with Inl l assms k e3 show ?thesis by (auto simp: cleared_def)
  next
    case (Inr u)
    have a: "auth_calm s4 = auth_calm s" using k(4,5) by (simp add: auth_calm_def listeners_def)
    from Inr l assms have b: "broadcastEvent ''authChange'' (AuthChange False None) s4 = (r, s')"
      by simp
    then have "s' = snd (broadcastEvent ''authChange'' (AuthChange False None) s4)"
      and "r = fst (broadcastEvent ''authChange'' (AuthChange False None) s4)"
      by simp_all
    then show ?thesis using k e3 a
      by (simp add: broadcastEvent_eq cleared_def socket_connected_def auth_events_def
            auth_calm_def count_list_append2 listeners_def split: option.splits)
  qed
  then show "cleared s'" and "\<not> socket_connected s'"
    and "throws s' = throws s" and "eventListeners s' = eventListeners s"
    and "(auth_events s' = auth_events s + 1 \<and> (r = Inr () \<longleftrightarrow> auth_calm s)) \<or>
         (socket_connected s \<and> auth_events s' = auth_events s \<and> r \<noteq> Inr ())"
    by simp_all
qed

text \<open>The token refresh never succeeds. It publishes \<open>authChange\<close> once, and once
  more when a callback registered for \<open>authChange\<close> has raised.\<close>

lemma refreshAuthToken_leaves:
  assumes "refreshAuthToken s = (r, s1)"
  shows "cleared s1"
    and "r = Inr False \<or> (\<exists>e. r = Inl e)"
    and "auth_events s1 = auth_events s + 1 \<or>
         (\<not> auth_calm s \<and> auth_events s1 = auth_events s + 2)"
    and "auth_calm s \<Longrightarrow> r = Inr False \<and> auth_events s1 = auth_events s + 1"
proof -
  obtain r0 sa where l0: "logout s = (r0, sa)" by (cases "logout s")
  note k0 = logout_leaves[OF l0]
  have "cleared s1 \<and> (r = Inr False \<or> (\<exists>e. r = Inl e)) \<and>
        (auth_events s1 = auth_events s + 1 \<or>
           (\<not> auth_calm s \<and> auth_events s1 = auth_events s + 2)) \<and>
        (auth_calm s \<longrightarrow> r = Inr False \<and> auth_events s1 = auth_events s + 1)"
  proof (cases r0)
    case (Inr u)
    with l0 assms have "r = Inr False" "s1 = sa" by (simp_all add: refreshAuthToken_def)
    with k0 Inr show ?thesis by auto
  next
    case (Inl e)
    obtain r' sb where l1: "logout sa = (r', sb)" by (cases "logout sa")
    note k1 = logout_leaves[OF l1]
    have ca: "auth_calm sa = auth_calm s" using k0(3,4) by (simp add: auth_calm_def listeners_def)
    have s1: "s1 = sb" and r: "r = (case r' of Inl e' \<Rightarrow> Inl e' | Inr u \<Rightarrow> Inr False)"
      using l0 l1 Inl assms by (auto simp: refreshAuthToken_def split: sum.splits)
    from k1(5) k0(2) have second: "auth_events sb = auth_events sa + 1"
      and res: "r' = Inr () \<longleftrightarrow> auth_calm sa" by auto
    from k0(5) Inl have first: "(auth_events sa = auth_events s + 1 \<and> \<not> auth_calm s) \<or>
        auth_events sa = auth_events s" by auto
    show ?thesis
      using k1(1) s1 r second res first ca by (cases r') auto
  qed
  then show "cleared s1"
    and "r = Inr False \<or> (\<exists>e. r = Inl e)"
    and "auth_events s1 = auth_events s + 1 \<or>
         (\<not> auth_calm s \<and> auth_events s1 = auth_events s + 2)"
    and "auth_calm s \<Longrightarrow> r = Inr False \<and> auth_events s1 = auth_events s + 1"
    by simp_all
qed

text \<open>An attempt answered with 401 below the retry budget ends in the \<open>catch\<close> block,
  in the state the refresh has left.\<close>

lemma attempt_unauthorized:
  assumes "rc < maxRetries s" and "refreshAuthToken s = (r, s1)"
  shows "\<exists>x. attempt (Response 401 b) rc s = (Throw x, s1)"
proof -
  from refreshAuthToken_leaves(2)[OF assms(2)] show ?thesis
  proof
    assume "r = Inr False"
    with assms show ?thesis
      by (simp add: attempt_def unauthorized_def parse_failure ok_def)
  next
    assume "\<exists>e. r = Inl e"
    with assms show ?thesis
      by (auto simp: attempt_def unauthorized_def)
  qed
qed

lemma attempt_unauthorized_exhausted:
  assumes "\<not> rc < maxRetries s"
  shows "attempt (Response 401 b) rc s = (Throw (failure b), s)"
  using assms by (simp add: attempt_def unauthorized_def parse_failure ok_def)

section \<open>Unauthorized responses\<close>

lemma fetch_fields:
  "cleared (fetch s) = cleared s" "auth_events (fetch s) = auth_events s"
  "auth_calm (fetch s) = auth_calm s" "maxRetries (fetch s) = maxRetries s"
  "retryDelay (fetch s) = retryDelay s"
  by (simp_all add: fetch_def cleared_def auth_events_def auth_calm_def listeners_def)

text \<open>
  Claim C2, as the code has it. An attempt answered with 401 while the retry count is
  below \<open>maxRetries\<close> runs the token refresh once. The refresh never succeeds: it
  logs out, which clears the token, its persisted entry and the remember-me flag, and
  it publishes \<open>authChange\<close> with \<open>authenticated: false\<close> exactly once when the
  callbacks registered for \<open>authChange\<close> return, and once or twice, never more, when
  one of them raises, since it then logs out again. The attempt then fails and is
  retried like any failed attempt: after \<open>retryDelay\<close> a further attempt is issued, so that a further
  401 refreshes and publishes again. An attempt answered with 401 when the retry budget
  is used up does not refresh; it rejects the call with the error built from the
  response, which carries the message of the server when the body parses to an object.
\<close>

theorem request_unauthorized:
  assumes "net rc = Response 401 b"
  shows "(rc < maxRetries s \<longrightarrow>
            (\<exists>r s1. refreshAuthToken (fetch s) = (r, s1) \<and>
               (r = Inr False \<or> (\<exists>x. r = Inl x)) \<and>
               cleared s1 \<and>
               (auth_events s1 = auth_events s + 1 \<or>
                  (\<not> auth_calm s \<and> auth_events s1 = auth_events s + 2)) \<and>
               (auth_calm s \<longrightarrow> r = Inr False \<and> auth_events s1 = auth_events s + 1) \<and>
               request net rc s = request net (rc + 1) (delay (retryDelay s) s1))) \<and>
         (\<not> rc < maxRetries s \<longrightarrow>
            request net rc s = (Inl (failure b), fetch s) \<and>
            failure (Some (JObj e t u v)) = Error (message e))"
proof (intro conjI impI)
  assume lt: "rc < maxRetries s"
  obtain r s1 where rf: "refreshAuthToken (fetch s) = (r, s1)"
    by (cases "refreshAuthToken (fetch s)")
  note k = refreshAuthToken_leaves[OF rf]
  have lt': "rc < maxRetries (fetch s)" using lt by (simp add: fetch_fields)
  from attempt_unauthorized[OF lt' rf, of b]
  obtain x where a: "attempt (Response 401 b) rc (fetch s) = (Throw x, s1)" by blast
  have m: "maxRetries s1 = maxRetries s" "retryDelay s1 = retryDelay s"
    using cfg_refreshAuthToken[OF rf] by (simp_all add: cfg_def fetch_def)
  have q: "request net rc s = request net (rc + 1) (delay (retryDelay s) s1)"
    by (simp add: request.simps[of net rc s] assms a m lt)
  from rf k q show "\<exists>r s1. refreshAuthToken (fetch s) = (r, s1) \<and>
               (r = Inr False \<or> (\<exists>x. r = Inl x)) \<and>
               cleared s1 \<and>
               (auth_events s1 = auth_events s + 1 \<or>
                  (\<not> auth_calm s \<and> auth_events s1 = auth_events s + 2)) \<and>
               (auth_calm s \<longrightarrow> r = Inr False \<and> auth_events s1 = auth_events s + 1) \<and>
               request net rc s = request net (rc + 1) (delay (retryDelay s) s1)"
    by (simp add: fetch_fields)
next
  assume ge: "\<not> rc < maxRetries s"
  then have ge': "\<not> rc < maxRetries (fetch s)" by (simp add: fetch_fields)
  show "request net rc s = (Inl (failure b), fetch s)"
    using ge by (simp add: request.simps[of net rc s] assms
          attempt_unauthorized_exhausted[OF ge'] fetch_fields)
  show "failure (Some (JObj e t u v)) = Error (message e)"
    by (simp add: failure_def)
qed

theorem request_unauthorized_witness:
  "(\<exists>r s1. refreshAuthToken (fetch (new_client [''token'' \<mapsto> ''t''] quiet)) = (r, s1) \<and>
      r = Inr False \<and> cleared s1 \<and>
      auth_events s1 = auth_events (new_client [''token'' \<mapsto> ''t''] quiet) + 1 \<and>
      request (script [] (Response 401 (Some (JObj (Some ''denied'') Absent None [])))) 0
          (new_client [''token'' \<mapsto> ''t''] quiet)
        = request (script [] (Response 401 (Some (JObj (Some ''denied'') Absent None [])))) 1
            (delay 1000 s1)) \<and>
   request (script [] (Response 401 (Some (JObj (Some ''denied'') Absent None [])))) 3
       (new_client [''token'' \<mapsto> ''t''] quiet)
     = (Inl (Error ''denied''), fetch (new_client [''token'' \<mapsto> ''t''] quiet))"
proof -
  let ?net = "script [] (Response 401 (Some (JObj (Some ''denied'') Absent None [])))"
  let ?c = "new_client [''token'' \<mapsto> ''t''] quiet"
  have n: "?net rc = Response 401 (Some (JObj (Some ''denied'') Absent None []))" for rc
    by (simp add: script_def)
  have q: "auth_calm ?c" by (simp add: auth_calm_def new_client_def listeners_def raised_def)
  have m: "maxRetries ?c = 3" "retryDelay ?c = 1000" by (simp_all add: new_client_def)
  from request_unauthorized[where net = ?net and rc = 0 and s = ?c, OF n]
       request_unauthorized[where net = ?net and rc = 3 and s = ?c, OF n] m q
  show ?thesis by (auto simp: message_def failure_def)
qed

text \<open>The claim as the specification words it fails: when every attempt is answered
  with 401, the refresh runs and the event is published three times, once for each
  attempt below the retry budget; and when the attempt after a 401 succeeds, the call
  resolves.\<close>

theorem request_unauthorized_counterexample:
  "count_list (published (snd (request
       (script [] (Response 401 (Some (JObj (Some ''denied'') Absent None [])))) 0
       (new_client [''token'' \<mapsto> ''t''] quiet))))
     (''authChange'', AuthChange False None) = 3 \<and>
   length (fetched (snd (request
       (script [] (Response 401 (Some (JObj (Some ''denied'') Absent None [])))) 0
       (new_client [''token'' \<mapsto> ''t''] quiet)))) = 4 \<and>
   fst (request
       (script [Response 401 (Some (JObj (Some ''denied'') Absent None []))]
          (Response 200 (Some (JObj None Absent None ''stats'')))) 0
       (new_client [''token'' \<mapsto> ''t''] quiet))
     = Inr (JObj None Absent None ''stats'')"
  by code_simp

section \<open>A login that is rejected\<close>

definition answered_401 :: "outcome \<Rightarrow> bool" where
  "answered_401 out = (case out of NoResponse m \<Rightarrow> False | Response st b \<Rightarrow> st = 401)"

lemma attempt_credentials:
  assumes "\<not> answered_401 out" and "attempt out rc s = (r, s')"
  shows "token s' = token s \<and> localStorage s' = localStorage s \<and> published s' = published s"
  using assms
  by (cases out)
     (auto simp: answered_401_def attempt_def unauthorized_def delay_def split: if_splits)

lemma request_credentials:
  assumes "\<forall>i. \<not> answered_401 (net i)"
  shows "token (snd (request net rc s)) = token s \<and>
         localStorage (snd (request net rc s)) = localStorage s \<and>
         published (snd (request net rc s)) = published s"
  using assms
proof (induction net rc s rule: request.induct)
  case (1 net rc s)
  obtain r s1 where a: "attempt (net rc) rc (fetch s) = (r, s1)"
    by (cases "attempt (net rc) rc (fetch s)")
  have n: "\<not> answered_401 (net rc)" using "1.prems" by simp
  have k: "token s1 = token s \<and> localStorage s1 = localStorage s \<and> published s1 = published s"
    using attempt_credentials[OF n a] by (simp add: fetch_def)
  show ?case
  proof (cases r)
    case (Return d)
    with a k show ?thesis by (simp add: request.simps[of net rc s])
  next
    case Again
    have eq: "request net rc s = request net (rc + 1) s1"
      using a Again by (simp add: request.simps[of net rc s])
    from "1.IH"(1)[OF a[symmetric] Again "1.prems"] k show ?thesis
      unfolding eq by simp
  next
    case (Throw e)
    show ?thesis
    proof (cases "rc < maxRetries s1")
      case True
      have eq: "request net rc s = request net (rc + 1) (delay (retryDelay s1) s1)"
        using a Throw True by (simp add: request.simps[of net rc s])
      from "1.IH"(2)[OF a[symmetric] Throw True "1.prems"] k show ?thesis
        unfolding eq by (simp add: delay_def)
    next
      case False
      with a Throw k show ?thesis by (simp add: request.simps[of net rc s])
    qed
  qed
qed

text \<open>No attempt restores a credential state that is cleared, or takes back an event.\<close>

lemma delay_fields:
  "cleared (delay ms s) = cleared s" "auth_events (delay ms s) = auth_events s"
  "maxRetries (delay ms s) = maxRetries s"
  by (simp_all add: delay_def cleared_def auth_events_def)

lemma attempt_keeps:
  assumes "attempt out rc s = (r, s1)"
  shows "(cleared s \<longrightarrow> cleared s1) \<and> auth_events s \<le> auth_events s1"
proof (cases "answered_401 out \<and> rc < maxRetries s")
  case False
  with assms have "s1 = s \<or> s1 = delay (retryDelay s * 2 ^ rc) s"
    by (cases out)
       (auto simp: answered_401_def attempt_def unauthorized_def split: if_splits)
  then show ?thesis by (auto simp: delay_fields)
next
  case True
  then obtain b where o: "out = Response 401 b"
    by (cases out) (auto simp: answered_401_def)
  obtain q s2 where rf: "refreshAuthToken s = (q, s2)" by (cases "refreshAuthToken s")
  from attempt_unauthorized[OF _ rf, of rc b] True assms o have "s1 = s2" by auto
  with refreshAuthToken_leaves(1,3)[OF rf] show ?thesis by auto
qed

lemma attempt_unauthorized_clears:
  assumes "answered_401 out" and "rc < maxRetries s" and "attempt out rc s = (r, s1)"
  shows "cleared s1 \<and> auth_events s < auth_events s1"
proof -
  from assms(1) obtain b where o: "out = Response 401 b"
    by (cases out) (auto simp: answered_401_def)
  obtain q s2 where rf: "refreshAuthToken s = (q, s2)" by (cases "refreshAuthToken s")
  from attempt_unauthorized[OF assms(2) rf, of b] assms(3) o have "s1 = s2" by auto
  with refreshAuthToken_leaves(1,3)[OF rf] show ?thesis by auto
qed

lemma request_keeps:
  "(cleared s \<longrightarrow> cleared (snd (request net rc s))) \<and>
   auth_events s \<le> auth_events (snd (request net rc s))"
proof (induction net rc s rule: request.induct)
  case (1 net rc s)
  obtain r s1 where a: "attempt (net rc) rc (fetch s) = (r, s1)"
    by (cases "attempt (net rc) rc (fetch s)")
  have k: "(cleared s \<longrightarrow> cleared s1) \<and> auth_events s \<le> auth_events s1"
    using attempt_keeps[OF a] by (simp add: fetch_fields)
  show ?case
  proof (cases r)
    case (Return d)
    with a k show ?thesis by (simp add: request.simps[of net rc s])
  next
    case Again
    have eq: "request net rc s = request net (rc + 1) s1"
      using a Again by (simp add: request.simps[of net rc s])
    from "1.IH"(1)[OF a[symmetric] Again] k show ?thesis
      unfolding eq by auto
  next
    case (Throw e)
    show ?thesis
    proof (cases "rc < maxRetries s1")
      case True
      have eq: "request net rc s = request net (rc + 1) (delay (retryDelay s1) s1)"
        using a Throw True by (simp add: request.simps[of net rc s])
      from "1.IH"(2)[OF a[symmetric] Throw True] k show ?thesis
        unfolding eq by (auto simp: delay_fields)
    next
      case False
      with a Throw k show ?thesis by (simp add: request.simps[of net rc s])
    qed
  qed
qed

text \<open>A call that rejects has made the attempts of every retry count up to
  \<open>maxRetries\<close>; when one of those below \<open>maxRetries\<close> was answered with 401, the
  refresh has run.\<close>

lemma request_unauthorized_clears:
  assumes "request net rc s = (Inl e, s')"
    and "rc \<le> i" and "i < maxRetries s" and "answered_401 (net i)"
  shows "cleared s' \<and> auth_events s < auth_events s'"
  using assms
proof (induction net rc s rule: request.induct)
  case (1 net rc s)
  obtain r s1 where a: "attempt (net rc) rc (fetch s) = (r, s1)"
    by (cases "attempt (net rc) rc (fetch s)")
  have m: "maxRetries s1 = maxRetries s"
    using attempt_maxRetries[OF a] by (simp add: fetch_fields)
  have lt: "rc < maxRetries s" using "1.prems" by simp
  have k: "auth_events s \<le> auth_events s1"
    using attempt_keeps[OF a] by (simp add: fetch_fields)
  have nxt: "request net (rc + 1) (delay (retryDelay s1) s1) = (Inl e, s')" if "r = Throw x" for x
    using a lt m that "1.prems"(1) by (simp add: request.simps[of net rc s])
  have again: "request net (rc + 1) s1 = (Inl e, s')" if "r = Again"
    using a that "1.prems"(1) by (simp add: request.simps[of net rc s])
  have ret: "r \<noteq> Return d" for d
    using a "1.prems"(1) by (auto simp: request.simps[of net rc s])
  show ?case
  proof (cases "rc = i")
    case True
    have c: "cleared s1 \<and> auth_events s < auth_events s1"
      using attempt_unauthorized_clears[OF _ _ a] "1.prems"(4) True lt
      by (simp add: fetch_fields)
    show ?thesis
    proof (cases r)
      case (Return d)
      with ret[of d] show ?thesis by simp
    next
      case Again
      from request_keeps[of s1 net "rc + 1"] c again[OF Again] show ?thesis by auto
    next
      case (Throw x)
      from request_keeps[of "delay (retryDelay s1) s1" net "rc + 1"] c nxt[OF Throw]
      show ?thesis by (auto simp: delay_fields)
    qed
  next
    case False
    then have le: "rc + 1 \<le> i" using "1.prems"(2) by simp
    have i1: "i < maxRetries s1" using "1.prems"(3) m by simp
    show ?thesis
    proof (cases r)
      case (Return d)
      with ret[of d] show ?thesis by simp
    next
      case Again
      have "cleared s' \<and> auth_events s1 < auth_events s'"
        by (rule "1.IH"(1)[OF a[symmetric] Again again[OF Again] le i1 "1.prems"(4)])
      with k show ?thesis by simp
    next
      case (Throw x)
      have t: "rc < maxRetries s1" using lt m by simp
      have i2: "i < maxRetries (delay (retryDelay s1) s1)" using i1 by (simp add: delay_fields)
      have "cleared s' \<and> auth_events (delay (retryDelay s1) s1) < auth_events s'"
        by (rule "1.IH"(2)[OF a[symmetric] Throw t nxt[OF Throw] le i2 "1.prems"(4)])
      with k show ?thesis by (simp add: delay_fields)
    qed
  qed
qed

text \<open>
  Claim C10, as the code has it. When the POST of \<open>login\<close> rejects, \<open>login\<close>
  rejects with the same error and writes nothing itself: the state is the one the POST
  left. When no attempt of the POST was answered with 401, that state has the token,
  the whole key-value store (the persisted token and the remember-me flag with it) and
  the events published as they were before the call. When an attempt of the POST made
  below the retry budget was answered with 401, the token refresh has run inside
  \<open>request\<close>: the token, its persisted entry and the remember-me flag are cleared
  and \<open>authChange\<close> with \<open>authenticated: false\<close> has been published.
\<close>

theorem login_rejected:
  assumes "post net s = (Inl e, s')"
  shows "login net rememberMe s = (Inl e, s') \<and>
         ((\<forall>i. \<not> answered_401 (net i)) \<longrightarrow>
            token s' = token s \<and> localStorage s' = localStorage s \<and>
            published s' = published s) \<and>
         ((\<exists>i<maxRetries s. answered_401 (net i)) \<longrightarrow>
            token s' = None \<and> localStorage s' ''token'' = None \<and>
            localStorage s' ''remember_me'' = None \<and>
            count_list (published s) (''authChange'', AuthChange False None)
              < count_list (published s') (''authChange'', AuthChange False None))"
proof -
  have "login net rememberMe s = (Inl e, s')"
    using assms by (simp add: login_def)
  moreover have "(\<forall>i. \<not> answered_401 (net i)) \<longrightarrow>
            token s' = token s \<and> localStorage s' = localStorage s \<and>
            published s' = published s"
    using request_credentials[of net 0 s] assms by (simp add: post_def)
  moreover have "(\<exists>i<maxRetries s. answered_401 (net i)) \<longrightarrow>
            token s' = None \<and> localStorage s' ''token'' = None \<and>
            localStorage s' ''remember_me'' = None \<and>
            count_list (published s) (''authChange'', AuthChange False None)
              < count_list (published s') (''authChange'', AuthChange False None)"
  proof
    assume "\<exists>i<maxRetries s. answered_401 (net i)"
    then obtain i where i: "i < maxRetries s" "answered_401 (net i)" by blast
    from assms have "request net 0 s = (Inl e, s')" by (simp add: post_def)
    from request_unauthorized_clears[OF this _ i]
    show "token s' = None \<and> localStorage s' ''token'' = None \<and>
            localStorage s' ''remember_me'' = None \<and>
            count_list (published s) (''authChange'', AuthChange False None)
              < count_list (published s') (''authChange'', AuthChange False None)"
      by (simp add: cleared_def auth_events_def)
  qed
  ultimately show ?thesis by simp
qed

theorem login_rejected_witness:
  "login (script [] (NoResponse ''offline'')) True
       (new_client [''token'' \<mapsto> ''t''] quiet)
     = (Inl (FetchFailed ''offline''),
        snd (post (script [] (NoResponse ''offline'')) (new_client [''token'' \<mapsto> ''t''] quiet))) \<and>
   token (snd (post (script [] (NoResponse ''offline'')) (new_client [''token'' \<mapsto> ''t''] quiet)))
     = Some ''t'' \<and>
   localStorage (snd (post (script [] (NoResponse ''offline'')) (new_client [''token'' \<mapsto> ''t''] quiet)))
     = [''token'' \<mapsto> ''t''] \<and>
   published (snd (post (script [] (NoResponse ''offline'')) (new_client [''token'' \<mapsto> ''t''] quiet)))
     = [] \<and>
   token (snd (post (script [] (Response 401 None)) (new_client [''token'' \<mapsto> ''t''] quiet)))
     = None \<and>
   localStorage (snd (post (script [] (Response 401 None)) (new_client [''token'' \<mapsto> ''t''] quiet)))
     ''token'' = None \<and>
   0 < count_list (published (snd (post (script [] (Response 401 None))
           (new_client [''token'' \<mapsto> ''t''] quiet))))
         (''authChange'', AuthChange False None)"
proof -
  let ?net = "script [] (NoResponse ''offline'')"
  let ?bad = "script [] (Response 401 None)"
  let ?c = "new_client [''token'' \<mapsto> ''t''] quiet"
  have f: "fst (post ?net ?c) = Inl (FetchFailed ''offline'')"
    unfolding post_def by code_simp
  then have p: "post ?net ?c = (Inl (FetchFailed ''offline''), snd (post ?net ?c))"
    by (metis prod.collapse)
  have g: "fst (post ?bad ?c) = Inl JsonFailed"
    unfolding post_def by code_simp
  then have q: "post ?bad ?c = (Inl JsonFailed, snd (post ?bad ?c))"
    by (metis prod.collapse)
  have n: "\<forall>i. \<not> answered_401 (?net i)" by (simp add: script_def answered_401_def)
  have b: "\<exists>i<maxRetries ?c. answered_401 (?bad i)"
    by (rule exI[of _ 0]) (simp add: script_def answered_401_def new_client_def)
  have c: "token ?c = Some ''t''" "localStorage ?c = [''token'' \<mapsto> ''t'']" "published ?c = []"
    by (simp_all add: new_client_def)
  from login_rejected[OF p, of True] login_rejected[OF q, of True] n b c
  show ?thesis by simp
qed

text \<open>The claim as written fails: a login refused with 401 rejects, and by then the
  token held before, its persisted entry and the remember-me flag are gone and
  \<open>authChange\<close> has been published.\<close>

theorem login_rejected_counterexample:
  "fst (login (script [] (Response 401 (Some (JObj (Some ''bad password'') Absent None [])))) False
         (new_client [''token'' \<mapsto> ''t'', ''remember_me'' \<mapsto> ''true''] quiet))
     = Inl (Error ''bad password'') \<and>
   token (new_client [''token'' \<mapsto> ''t'', ''remember_me'' \<mapsto> ''true''] quiet) = Some ''t'' \<and>
   token (snd (login (script [] (Response 401 (Some (JObj (Some ''bad password'') Absent None [])))) False
         (new_client [''token'' \<mapsto> ''t'', ''remember_me'' \<mapsto> ''true''] quiet))) = None \<and>
   localStorage (snd (login (script [] (Response 401 (Some (JObj (Some ''bad password'') Absent None [])))) False
         (new_client [''token'' \<mapsto> ''t'', ''remember_me'' \<mapsto> ''true''] quiet))) ''token'' = None \<and>
   localStorage (snd (login (script [] (Response 401 (Some (JObj (Some ''bad password'') Absent None [])))) False
         (new_client [''token'' \<mapsto> ''t'', ''remember_me'' \<mapsto> ''true''] quiet))) ''remember_me'' = None \<and>
   published (snd (login (script [] (Response 401 (Some (JObj (Some ''bad password'') Absent None [])))) False
         (new_client [''token'' \<mapsto> ''t'', ''remember_me'' \<mapsto> ''true''] quiet)))
     = [(''authChange'', AuthChange False None), (''authChange'', AuthChange False None),
        (''authChange'', AuthChange False None)]"
  by code_simp

end
